theory Spec2Isabelle
  imports Main "HOL-Library.Sublist"
begin

section \<open>The DOK TOK bot: data model\<close>

text \<open>
  The source is one class, \<^verbatim>\<open>StandaloneDokTokBot\<close>, with two in-memory maps
  (\<^verbatim>\<open>userSessions\<close>, \<^verbatim>\<open>loginStates\<close>) keyed by the chat id, three command
  callbacks registered with \<^verbatim>\<open>onText\<close>, a \<^verbatim>\<open>message\<close> listener, and the methods
  \<^verbatim>\<open>handleLoginFlow\<close>, \<^verbatim>\<open>authenticateUser\<close> and \<^verbatim>\<open>showUserOrders\<close>.

  Texts are byte strings in UTF-8; the emoji of the source are written as their bytes.
  The tests the source makes on texts (\<^verbatim>\<open>startsWith('/')\<close> and the three regular
  expressions, all literal ASCII) give the same answer on UTF-8 bytes as on the UTF-16
  code units of JavaScript.
\<close>

type_synonym chat_id = int
type_synonym user_id = int

text \<open>A row of table \<^verbatim>\<open>users\<close>, with the columns the source reads.\<close>

record user =
  uid :: user_id
  username :: string
  password :: string
  status :: string
  first_name :: string
  last_name :: string
  role :: string

text \<open>
  A row of the orders query: the ten columns of its \<^verbatim>\<open>SELECT\<close> list. The columns
  that the source only interpolates into the message are kept as their text;
  \<^verbatim>\<open>created_at\<close> is a point in time.
\<close>

record order_row =
  order_id :: int
  order_number :: string
  customer_name :: string
  total_amount :: string
  order_status :: string
  created_at :: int
  product_type :: string
  unit_name :: string
  quantity :: string
  price :: string

text \<open>A row of table \<^verbatim>\<open>orders\<close>: the selected columns and the owner.\<close>

record order = order_row +
  sales_officer_id :: user_id

text \<open>
  \<^verbatim>\<open>loginStates\<close> holds \<^verbatim>\<open>{ step: 'username' }\<close> or
  \<^verbatim>\<open>{ step: 'password', username: text }\<close>.
\<close>

datatype login_state = StepUsername | StepPassword string

record bot =
  userSessions :: "chat_id \<rightharpoonup> user_id"
  loginStates :: "chat_id \<rightharpoonup> login_state"

text \<open>An inbound message: \<^verbatim>\<open>msg.chat.id\<close> and \<^verbatim>\<open>msg.text\<close> (absent on a photo, say).\<close>

record msg =
  chat :: chat_id
  text_of :: "string option"

subsection \<open>The collaborators\<close>

text \<open>
  What the database, bcrypt and the chat transport answer is a parameter of every
  handler. A handler issues at most one query, and no two \<^verbatim>\<open>sendMessage\<close> calls
  of one handler run carry the same text, so one flag for the query and one predicate on
  (chat, text) for the sends cover every behaviour of a single run.
  \<^verbatim>\<open>bcrypt.compare\<close> is taken to resolve to a boolean on every pair of strings.
\<close>

record env =
  users :: "user list"
  orders :: "order list"
  pool_query_ok :: bool
  bcrypt_compare :: "string \<Rightarrow> string \<Rightarrow> bool"
  send_ok :: "chat_id \<Rightarrow> string \<Rightarrow> bool"
  toLocaleDateString :: "int \<Rightarrow> string"

datatype sql_statement =
    SelectUser string string
  | SelectOrders user_id

datatype parse_mode = Plain | Markdown

text \<open>
  The calls a handler makes on its collaborators, in order. A call is recorded when it
  is issued, whether it then resolves or rejects.
\<close>

datatype event =
    SendMessage chat_id string parse_mode
  | Query sql_statement
  | ConsoleError string

text \<open>
  What one run of an async handler leaves: the two maps, the calls it issued, and
  whether its promise rejected.
\<close>

record result =
  bot_after :: bot
  effects :: "event list"
  rejected :: bool

subsection \<open>The message texts\<close>

definition nl :: char where
  "nl = CHR 0x0A"

definition cross_mark :: string where
  "cross_mark = [CHR 0xE2, CHR 0x9D, CHR 0x8C]"

definition check_mark :: string where
  "check_mark = [CHR 0xE2, CHR 0x9C, CHR 0x85]"

definition hourglass :: string where
  "hourglass = [CHR 0xE2, CHR 0x8F, CHR 0xB3]"

definition welcome_text :: string where
  "welcome_text =
     [CHR 0xF0, CHR 0x9F, CHR 0x8F, CHR 0xA2] @ '' Welcome to DOK TOK Sales Order Management''
     @ [nl, nl] @ ''Please login to access your orders:'' @ [nl]
     @ [CHR 0xF0, CHR 0x9F, CHR 0x93, CHR 0x9D] @ '' Send your username to begin''"

definition login_first_text :: string where
  "login_first_text = cross_mark @ '' Please login first using /start''"

definition logged_out_text :: string where
  "logged_out_text = check_mark @ '' Logged out successfully''"

definition please_start_text :: string where
  "please_start_text = cross_mark @ '' Please start with /start command''"

definition send_password_text :: string where
  "send_password_text = [CHR 0xF0, CHR 0x9F, CHR 0x94, CHR 0x90] @ '' Now send your password:''"

definition invalid_user_text :: string where
  "invalid_user_text = cross_mark @ '' Invalid username or user not approved''"

definition invalid_password_text :: string where
  "invalid_password_text = cross_mark @ '' Invalid password''"

definition login_failed_text :: string where
  "login_failed_text = cross_mark @ '' Login failed. Please try /start again''"

definition no_orders_text :: string where
  "no_orders_text = [CHR 0xF0, CHR 0x9F, CHR 0x93, CHR 0xAD] @ '' No orders found''"

definition error_loading_text :: string where
  "error_loading_text = cross_mark @ '' Error loading orders''"

definition orders_header :: string where
  "orders_header = [CHR 0xF0, CHR 0x9F, CHR 0x93, CHR 0x8B] @ '' *Your Recent Orders:*'' @ [nl, nl]"

definition welcomeMsg :: "user \<Rightarrow> string" where
  "welcomeMsg u =
     check_mark @ '' Welcome '' @ first_name u @ '' '' @ last_name u @ ''!'' @ [nl]
     @ [CHR 0xF0, CHR 0x9F, CHR 0x93, CHR 0x8A] @ '' Role: '' @ role u @ [nl, nl]
     @ ''Available commands:'' @ [nl]
     @ [CHR 0xF0, CHR 0x9F, CHR 0x93, CHR 0x8B] @ '' /orders - View your orders'' @ [nl]
     @ [CHR 0xF0, CHR 0x9F, CHR 0x9A, CHR 0xAA] @ '' /logout - Logout''"

section \<open>Operations\<close>

definition resolved :: "bot \<Rightarrow> event list \<Rightarrow> result" where
  "resolved b evs = \<lparr>bot_after = b, effects = evs, rejected = False\<rparr>"

definition rejects :: "bot \<Rightarrow> event list \<Rightarrow> result" where
  "rejects b evs = \<lparr>bot_after = b, effects = evs, rejected = True\<rparr>"

subsection \<open>\<^verbatim>\<open>authenticateUser\<close>\<close>

text \<open>
  \<^verbatim>\<open>SELECT * FROM users WHERE username = $1 AND status = $2\<close> with the parameters
  \<^verbatim>\<open>[username, 'approved']\<close>: the rows of the table that pass the filter, in the
  table's order (the statement has no \<^verbatim>\<open>ORDER BY\<close>; the table is any list).
\<close>

definition users_query :: "user list \<Rightarrow> string \<Rightarrow> string \<Rightarrow> user list" where
  "users_query tbl name st = filter (\<lambda>u. username u = name \<and> status u = st) tbl"

text \<open>
  The \<^verbatim>\<open>catch\<close> block of \<^verbatim>\<open>authenticateUser\<close>, entered with the maps as the
  \<^verbatim>\<open>try\<close> block left them: log, send the failure text, then delete the login state.
  When that send rejects too, the delete is not reached and the promise rejects.
\<close>

definition authenticate_catch :: "env \<Rightarrow> bot \<Rightarrow> chat_id \<Rightarrow> event list \<Rightarrow> result" where
  "authenticate_catch e b chatId evs =
     (let evs' = evs @ [ConsoleError ''Authentication error:'',
                        SendMessage chatId login_failed_text Plain]
      in if send_ok e chatId login_failed_text
         then resolved (b\<lparr>loginStates := (loginStates b)(chatId := None)\<rparr>) evs'
         else rejects b evs')"

definition authenticateUser ::
  "env \<Rightarrow> bot \<Rightarrow> chat_id \<Rightarrow> string \<Rightarrow> string \<Rightarrow> result" where
  "authenticateUser e b chatId name pw =
     (let q = [Query (SelectUser name ''approved'')]
      in if \<not> pool_query_ok e then authenticate_catch e b chatId q
         else
           (case users_query (users e) name ''approved'' of
              [] \<Rightarrow>
                (let evs = q @ [SendMessage chatId invalid_user_text Plain]
                 in if send_ok e chatId invalid_user_text
                    then resolved (b\<lparr>loginStates := (loginStates b)(chatId := None)\<rparr>) evs
                    else authenticate_catch e b chatId evs)
            | u # _ \<Rightarrow>
                if \<not> bcrypt_compare e pw (password u)
                then
                  (let evs = q @ [SendMessage chatId invalid_password_text Plain]
                   in if send_ok e chatId invalid_password_text
                      then resolved (b\<lparr>loginStates := (loginStates b)(chatId := None)\<rparr>) evs
                      else authenticate_catch e b chatId evs)
                else
                  (let b' = b\<lparr>userSessions := (userSessions b)(chatId \<mapsto> uid u),
                                loginStates := (loginStates b)(chatId := None)\<rparr>;
                       evs = q @ [SendMessage chatId (welcomeMsg u) Plain]
                   in if send_ok e chatId (welcomeMsg u)
                      then resolved b' evs
                      else authenticate_catch e b' chatId evs)))"

subsection \<open>\<^verbatim>\<open>handleLoginFlow\<close>\<close>

definition handleLoginFlow :: "env \<Rightarrow> bot \<Rightarrow> chat_id \<Rightarrow> string \<Rightarrow> result" where
  "handleLoginFlow e b chatId txt =
     (case loginStates b chatId of
        None \<Rightarrow>
          (if send_ok e chatId please_start_text
           then resolved b [SendMessage chatId please_start_text Plain]
           else rejects b [SendMessage chatId please_start_text Plain])
      | Some StepUsername \<Rightarrow>
          (let b' = b\<lparr>loginStates := (loginStates b)(chatId \<mapsto> StepPassword txt)\<rparr>
           in if send_ok e chatId send_password_text
              then resolved b' [SendMessage chatId send_password_text Plain]
              else rejects b' [SendMessage chatId send_password_text Plain])
      | Some (StepPassword name) \<Rightarrow> authenticateUser e b chatId name txt)"

subsection \<open>\<^verbatim>\<open>showUserOrders\<close>\<close>

text \<open>
  The orders statement: \<^verbatim>\<open>WHERE sales_officer_id = $1 ORDER BY created_at DESC LIMIT 10\<close>,
  selecting the ten columns of \<^typ>\<open>order_row\<close>. Rows with equal \<^verbatim>\<open>created_at\<close>
  keep the table's order here; SQL leaves their order open.
\<close>

definition orders_query :: "order list \<Rightarrow> user_id \<Rightarrow> order_row list" where
  "orders_query tbl userId =
     map order_row.truncate
       (take 10 (sort_key (\<lambda>r. - created_at r) (filter (\<lambda>r. sales_officer_id r = userId) tbl)))"

definition statusIcon :: "string \<Rightarrow> string" where
  "statusIcon st =
     (if st = ''approved'' then check_mark
      else if st = ''pending'' then hourglass
      else cross_mark)"

text \<open>\<^verbatim>\<open>${index + 1}\<close>: a natural number in decimal.\<close>

fun show_nat :: "nat \<Rightarrow> string" where
  "show_nat n =
     (if n < 10 then [char_of (48 + n)]
      else show_nat (n div 10) @ [char_of (48 + n mod 10)])"

declare show_nat.simps [simp del]

definition order_entry :: "env \<Rightarrow> nat \<Rightarrow> order_row \<Rightarrow> string" where
  "order_entry e index r =
     show_nat (index + 1) @ ''. '' @ statusIcon (order_status r)
       @ '' *'' @ order_number r @ ''*'' @ [nl]
     @ ''   Customer: '' @ customer_name r @ [nl]
     @ ''   Product: '' @ product_type r @ '' ('' @ unit_name r @ '')'' @ [nl]
     @ ''   Quantity: '' @ quantity r @ [nl]
     @ ''   Amount: '' @ total_amount r @ '' ETB'' @ [nl]
     @ ''   Status: '' @ order_status r @ [nl]
     @ ''   Date: '' @ toLocaleDateString e (created_at r) @ [nl, nl]"

text \<open>\<^verbatim>\<open>orders.forEach((order, index) => { message += ... })\<close>.\<close>

fun forEach_order :: "env \<Rightarrow> order_row list \<Rightarrow> nat \<Rightarrow> string \<Rightarrow> string" where
  "forEach_order e [] index message = message"
| "forEach_order e (r # rs) index message =
     forEach_order e rs (index + 1) (message @ order_entry e index r)"

definition showUserOrders_catch :: "env \<Rightarrow> bot \<Rightarrow> chat_id \<Rightarrow> event list \<Rightarrow> result" where
  "showUserOrders_catch e b chatId evs =
     (let evs' = evs @ [ConsoleError ''Error fetching orders:'',
                        SendMessage chatId error_loading_text Plain]
      in if send_ok e chatId error_loading_text then resolved b evs' else rejects b evs')"

definition showUserOrders :: "env \<Rightarrow> bot \<Rightarrow> chat_id \<Rightarrow> user_id \<Rightarrow> result" where
  "showUserOrders e b chatId userId =
     (let q = [Query (SelectOrders userId)]
      in if \<not> pool_query_ok e then showUserOrders_catch e b chatId q
         else
           (let rows = orders_query (orders e) userId
            in if length rows = 0
               then
                 (let evs = q @ [SendMessage chatId no_orders_text Plain]
                  in if send_ok e chatId no_orders_text
                     then resolved b evs
                     else showUserOrders_catch e b chatId evs)
               else
                 (let message = forEach_order e rows 0 orders_header;
                      evs = q @ [SendMessage chatId message Markdown]
                  in if send_ok e chatId message
                     then resolved b evs
                     else showUserOrders_catch e b chatId evs)))"

subsection \<open>The callbacks registered by \<^verbatim>\<open>setupHandlers\<close>\<close>

text \<open>\<^verbatim>\<open>/start\<close>: send the welcome, then set the login state.\<close>

definition onText_start :: "env \<Rightarrow> bot \<Rightarrow> chat_id \<Rightarrow> result" where
  "onText_start e b chatId =
     (if send_ok e chatId welcome_text
      then resolved (b\<lparr>loginStates := (loginStates b)(chatId \<mapsto> StepUsername)\<rparr>)
             [SendMessage chatId welcome_text Plain]
      else rejects b [SendMessage chatId welcome_text Plain])"

text \<open>
  \<^verbatim>\<open>/orders\<close>: \<^verbatim>\<open>if (!userId)\<close> holds when the map has no entry
  (\<^verbatim>\<open>undefined\<close>) and when the stored id is \<^verbatim>\<open>0\<close>.
\<close>

definition onText_orders :: "env \<Rightarrow> bot \<Rightarrow> chat_id \<Rightarrow> result" where
  "onText_orders e b chatId =
     (case userSessions b chatId of
        None \<Rightarrow>
          (if send_ok e chatId login_first_text
           then resolved b [SendMessage chatId login_first_text Plain]
           else rejects b [SendMessage chatId login_first_text Plain])
      | Some userId \<Rightarrow>
          if userId = 0
          then
            (if send_ok e chatId login_first_text
             then resolved b [SendMessage chatId login_first_text Plain]
             else rejects b [SendMessage chatId login_first_text Plain])
          else showUserOrders e b chatId userId)"

text \<open>\<^verbatim>\<open>/logout\<close>: delete both entries, then send the confirmation.\<close>

definition onText_logout :: "env \<Rightarrow> bot \<Rightarrow> chat_id \<Rightarrow> result" where
  "onText_logout e b chatId =
     (let b' = b\<lparr>userSessions := (userSessions b)(chatId := None),
                  loginStates := (loginStates b)(chatId := None)\<rparr>
      in if send_ok e chatId logged_out_text
         then resolved b' [SendMessage chatId logged_out_text Plain]
         else rejects b' [SendMessage chatId logged_out_text Plain])"

subsection \<open>Dispatch\<close>

text \<open>
  The transport library calls, for one inbound message, first the \<^verbatim>\<open>message\<close>
  listener and then, when the message has a text, every \<^verbatim>\<open>onText\<close> callback whose
  regular expression is found in the text, in the order of registration. The three
  expressions \<^verbatim>\<open>/\/start/\<close>, \<^verbatim>\<open>/\/orders/\<close>, \<^verbatim>\<open>/\/logout/\<close> are literal and not
  anchored: they match a text that contains the word anywhere. The listener of the source
  calls \<^verbatim>\<open>handleLoginFlow\<close> when \<^verbatim>\<open>msg.text && !msg.text.startsWith('/')\<close>.
\<close>

datatype handler = LoginFlow | Start | Orders | Logout

definition handlers_for :: "msg \<Rightarrow> handler list" where
  "handlers_for m =
     (case text_of m of
        None \<Rightarrow> []
      | Some t \<Rightarrow>
          if t = [] then []
          else (if \<not> prefix ''/'' t then [LoginFlow] else [])
             @ (if sublist ''/start'' t then [Start] else [])
             @ (if sublist ''/orders'' t then [Orders] else [])
             @ (if sublist ''/logout'' t then [Logout] else []))"

fun run_handler :: "env \<Rightarrow> msg \<Rightarrow> bot \<Rightarrow> handler \<Rightarrow> result" where
  "run_handler e m b LoginFlow =
     (case text_of m of
        None \<Rightarrow> resolved b []
      | Some t \<Rightarrow> handleLoginFlow e b (chat m) t)"
| "run_handler e m b Start = onText_start e b (chat m)"
| "run_handler e m b Orders = onText_orders e b (chat m)"
| "run_handler e m b Logout = onText_logout e b (chat m)"

text \<open>
  The handlers of one message are run one after the other, each to its end (the
  source's handlers are async, and the order in which their continuations run after an
  \<^verbatim>\<open>await\<close> is not modelled). A rejected promise does not stop the next handler.
\<close>

definition then_run :: "result \<Rightarrow> (bot \<Rightarrow> result) \<Rightarrow> result" where
  "then_run r f =
     (let r' = f (bot_after r)
      in \<lparr>bot_after = bot_after r', effects = effects r @ effects r',
          rejected = (rejected r \<or> rejected r')\<rparr>)"

definition processUpdate :: "env \<Rightarrow> bot \<Rightarrow> msg \<Rightarrow> result" where
  "processUpdate e b m =
     foldl (\<lambda>r h. then_run r (\<lambda>b'. run_handler e m b' h)) (resolved b []) (handlers_for m)"

section \<open>Example inputs\<close>

text \<open>A stand-in for bcrypt on the examples: the hash of \<open>pw\<close> is \<open>hash:pw\<close>.\<close>

definition ex_bcrypt :: "string \<Rightarrow> string \<Rightarrow> bool" where
  "ex_bcrypt pw h = (h = ''hash:'' @ pw)"

definition alice :: user where
  "alice = \<lparr>uid = 7, username = ''alice'', password = ''hash:correctpass'',
            status = ''approved'', first_name = ''Alice'', last_name = ''Abebe'',
            role = ''sales_officer''\<rparr>"

definition alice_second :: user where
  "alice_second = \<lparr>uid = 8, username = ''alice'', password = ''hash:otherpass'',
            status = ''approved'', first_name = ''Alice'', last_name = ''Bekele'',
            role = ''sales_officer''\<rparr>"

definition ex_order :: "int \<Rightarrow> int \<Rightarrow> user_id \<Rightarrow> order" where
  "ex_order n t owner =
     \<lparr>order_id = n, order_number = ''ORD'', customer_name = ''Customer'',
      total_amount = ''100.00'', order_status = ''pending'', created_at = t,
      product_type = ''cement'', unit_name = ''bag'', quantity = ''5'', price = ''20.00'',
      sales_officer_id = owner\<rparr>"

definition ex_env :: env where
  "ex_env = \<lparr>users = [alice], orders = [ex_order 1 100 7, ex_order 2 300 9, ex_order 3 200 7],
             pool_query_ok = True, bcrypt_compare = ex_bcrypt, send_ok = (\<lambda>_ _. True),
             toLocaleDateString = (\<lambda>_. ''1/1/2025'')\<rparr>"

definition empty_bot :: bot where
  "empty_bot = \<lparr>userSessions = Map.empty, loginStates = Map.empty\<rparr>"

text \<open>Chat 1 is logged in as user 7.\<close>

definition logged_in_bot :: bot where
  "logged_in_bot = \<lparr>userSessions = [1 \<mapsto> 7], loginStates = Map.empty\<rparr>"

text \<open>The same collaborators with the database unreachable.\<close>

definition ex_env_db_down :: env where
  "ex_env_db_down = ex_env\<lparr>pool_query_ok := False\<rparr>"

text \<open>A users table with two approved rows of the same username.\<close>

definition ex_env_two_alices :: env where
  "ex_env_two_alices = ex_env\<lparr>users := [alice, alice_second]\<rparr>"

text \<open>Chat 1 has sent \<^verbatim>\<open>/start\<close> and the username \<^verbatim>\<open>alice\<close>.\<close>

definition awaiting_password_bot :: bot where
  "awaiting_password_bot =
     \<lparr>userSessions = Map.empty, loginStates = [1 \<mapsto> StepPassword ''alice'']\<rparr>"

text \<open>Chat 1 as before; chat 2 is logged in as user 9 and has sent \<^verbatim>\<open>/start\<close> again.\<close>

definition two_chats_bot :: bot where
  "two_chats_bot =
     \<lparr>userSessions = [2 \<mapsto> 9],
      loginStates = [1 \<mapsto> StepPassword ''alice'', 2 \<mapsto> StepUsername]\<rparr>"

text \<open>The chat rejects every send (the user has blocked the bot).\<close>

definition ex_env_blocked :: env where
  "ex_env_blocked = ex_env\<lparr>send_ok := (\<lambda>_ _. False)\<rparr>"

text \<open>The network is down: the query and every send reject.\<close>

definition ex_env_offline :: env where
  "ex_env_offline = ex_env\<lparr>pool_query_ok := False, send_ok := (\<lambda>_ _. False)\<rparr>"

text \<open>Only the failure text of the \<^verbatim>\<open>catch\<close> block can be sent.\<close>

definition ex_env_welcome_fails :: env where
  "ex_env_welcome_fails = ex_env\<lparr>send_ok := (\<lambda>_ t. t = login_failed_text)\<rparr>"

text \<open>Chat 1 has sent \<^verbatim>\<open>/start\<close> and the username \<^verbatim>\<open>bob\<close>, which no row has.\<close>

definition awaiting_password_bob_bot :: bot where
  "awaiting_password_bob_bot =
     \<lparr>userSessions = Map.empty, loginStates = [1 \<mapsto> StepPassword ''bob'']\<rparr>"

section \<open>Properties\<close>

subsection \<open>Basic facts\<close>

lemma bot_after_resolved [simp]: "bot_after (resolved b evs) = b"
  by (simp add: resolved_def)

lemma effects_resolved [simp]: "effects (resolved b evs) = evs"
  by (simp add: resolved_def)

lemma rejected_resolved [simp]: "rejected (resolved b evs) = False"
  by (simp add: resolved_def)

lemma bot_after_rejects [simp]: "bot_after (rejects b evs) = b"
  by (simp add: rejects_def)

lemma effects_rejects [simp]: "effects (rejects b evs) = evs"
  by (simp add: rejects_def)

lemma rejected_rejects [simp]: "rejected (rejects b evs) = True"
  by (simp add: rejects_def)

lemma then_run_resolved_Nil: "then_run (resolved b []) f = f b"
  by (simp add: then_run_def resolved_def Let_def)

lemma bot_after_then_run: "bot_after (then_run r f) = bot_after (f (bot_after r))"
  by (simp add: then_run_def Let_def)

lemma showUserOrders_catch_bot: "bot_after (showUserOrders_catch e b c evs) = b"
  by (simp add: showUserOrders_catch_def Let_def)

lemma showUserOrders_bot: "bot_after (showUserOrders e b c userId) = b"
  by (simp add: showUserOrders_def Let_def showUserOrders_catch_bot)

lemma onText_orders_bot: "bot_after (onText_orders e b c) = b"
  by (simp add: onText_orders_def showUserOrders_bot split: option.splits)

lemma onText_start_bot:
  "bot_after (onText_start e b c) =
     (if send_ok e c welcome_text
      then b\<lparr>loginStates := (loginStates b)(c \<mapsto> StepUsername)\<rparr> else b)"
  by (simp add: onText_start_def)

lemma onText_logout_bot:
  "bot_after (onText_logout e b c) =
     b\<lparr>userSessions := (userSessions b)(c := None),
       loginStates := (loginStates b)(c := None)\<rparr>"
  by (simp add: onText_logout_def Let_def)

text \<open>The texts are told apart by their first bytes.\<close>

lemma welcomeMsg_not_failure:
  "welcomeMsg u \<noteq> invalid_user_text" "welcomeMsg u \<noteq> invalid_password_text"
  "welcomeMsg u \<noteq> login_failed_text"
  by (simp_all add: welcomeMsg_def invalid_user_text_def invalid_password_text_def
      login_failed_text_def check_mark_def cross_mark_def)

text \<open>The first row of a filter is what \<^const>\<open>find\<close> returns.\<close>

lemma find_filter_conv:
  "find P xs = (case filter P xs of [] \<Rightarrow> None | x # _ \<Rightarrow> Some x)"
  by (induction xs) simp_all

lemma users_query_Cons:
  "users_query tbl name st = u # rest \<Longrightarrow> u \<in> set tbl \<and> username u = name \<and> status u = st"
proof -
  assume "users_query tbl name st = u # rest"
  then have "u \<in> set (filter (\<lambda>u. username u = name \<and> status u = st) tbl)"
    by (simp add: users_query_def)
  then show ?thesis by simp
qed

subsection \<open>The \<^verbatim>\<open>catch\<close> block and the paths of \<^verbatim>\<open>authenticateUser\<close>\<close>

lemma authenticate_catch_sessions:
  "userSessions (bot_after (authenticate_catch e b c evs)) = userSessions b"
  by (simp add: authenticate_catch_def Let_def)

lemma authenticate_catch_effects:
  "effects (authenticate_catch e b c evs) =
     evs @ [ConsoleError ''Authentication error:'', SendMessage c login_failed_text Plain]"
  by (simp add: authenticate_catch_def Let_def)

lemma authenticate_catch_loginStates:
  "loginStates (bot_after (authenticate_catch e b c evs)) =
     (if send_ok e c login_failed_text then (loginStates b)(c := None) else loginStates b)"
  by (simp add: authenticate_catch_def Let_def)

lemma authenticate_catch_rejected:
  "rejected (authenticate_catch e b c evs) = (\<not> send_ok e c login_failed_text)"
  by (simp add: authenticate_catch_def Let_def)

lemma authenticate_success:
  assumes "pool_query_ok e"
    and "users_query (users e) name ''approved'' = u # rest"
    and "bcrypt_compare e pw (password u)"
  shows "userSessions (bot_after (authenticateUser e b c name pw)) = (userSessions b)(c \<mapsto> uid u)"
    and "SendMessage c (welcomeMsg u) Plain \<in> set (effects (authenticateUser e b c name pw))"
    and "loginStates (bot_after (authenticateUser e b c name pw)) c = None"
  using assms
  by (simp_all add: authenticateUser_def Let_def authenticate_catch_sessions
      authenticate_catch_effects authenticate_catch_loginStates)

lemma authenticate_failure:
  assumes "\<not> pool_query_ok e \<or> users_query (users e) name ''approved'' = []
           \<or> (\<exists>u rest. users_query (users e) name ''approved'' = u # rest
                 \<and> \<not> bcrypt_compare e pw (password u))"
  shows "userSessions (bot_after (authenticateUser e b c name pw)) = userSessions b"
    and "SendMessage c (welcomeMsg v) Plain \<notin> set (effects (authenticateUser e b c name pw))"
  using assms
  by (auto simp add: authenticateUser_def Let_def authenticate_catch_sessions
      authenticate_catch_effects welcomeMsg_not_failure split: if_splits)

subsection \<open>The orders message\<close>

lemma created_at_truncate: "created_at (order_row.truncate r) = created_at r"
  by (simp add: order_row.truncate_def)

text \<open>Sorting keeps keys distinct; a descending list of distinct keys is strictly descending.\<close>

lemma distinct_map_insort_key:
  "distinct (map f (insort_key g x xs)) = distinct (map f (x # xs))"
  by (induction xs) (auto simp: set_insort_key)

lemma distinct_map_sort_key:
  "distinct (map f (sort_key g xs)) = distinct (map f xs)"
  by (induction xs) (simp_all add: distinct_map_insort_key)

lemma distinct_map_take: "distinct (map f xs) \<Longrightarrow> distinct (map f (take n xs))"
  by (simp add: take_map [symmetric] del: take_map)

lemma sorted_wrt_desc_strict:
  fixes f :: "'a \<Rightarrow> int"
  assumes "sorted_wrt (\<lambda>x y. f y \<le> f x) xs" and "distinct (map f xs)"
  shows "sorted_wrt (\<lambda>x y. f y < f x) xs"
  using assms
proof (induction xs)
  case Nil
  then show ?case by simp
next
  case (Cons a xs)
  have "f x < f a" if "x \<in> set xs" for x
  proof -
    from Cons.prems that have "f x \<le> f a" by simp
    moreover from Cons.prems have "f a \<notin> f ` set xs" by simp
    with that have "f x \<noteq> f a" by (metis imageI)
    ultimately show ?thesis by simp
  qed
  with Cons show ?case by simp
qed

lemma orders_query_strict:
  assumes "distinct (map created_at (filter (\<lambda>x. sales_officer_id x = userId) tbl))"
  shows "sorted_wrt (\<lambda>r r'. created_at r > created_at r') (orders_query tbl userId)"
proof -
  let ?own = "filter (\<lambda>x. sales_officer_id x = userId) tbl"
  let ?srt = "sort_key (\<lambda>x. - created_at x) ?own"
  have "sorted (map (\<lambda>x. - created_at x) ?srt)"
    by (rule sorted_sort_key)
  then have "sorted_wrt (\<lambda>x y. created_at y \<le> created_at x) ?srt"
    by (simp add: sorted_wrt_map)
  then have s: "sorted_wrt (\<lambda>x y. created_at y \<le> created_at x) (take 10 ?srt)"
    by (rule sorted_wrt_take)
  from assms have "distinct (map created_at ?srt)"
    by (simp only: distinct_map_sort_key)
  then have "distinct (map created_at (take 10 ?srt))"
    by (rule distinct_map_take)
  with s have "sorted_wrt (\<lambda>x y. created_at y < created_at x) (take 10 ?srt)"
    by (rule sorted_wrt_desc_strict)
  then show ?thesis
    by (simp add: orders_query_def sorted_wrt_map created_at_truncate)
qed

text \<open>The loop appends one entry per row, numbered from \<open>i + 1\<close>, in the rows' order.\<close>

lemma forEach_order_concat:
  "forEach_order e rs i message =
     message @ concat (map (\<lambda>(k, r). order_entry e k r) (zip [i..<i + length rs] rs))"
proof (induction rs arbitrary: i message)
  case Nil
  then show ?case by simp
next
  case (Cons r rs)
  have "[i..<i + length (r # rs)] = i # [Suc i..<Suc i + length rs]"
    by (simp add: upt_rec)
  with Cons [of "Suc i" "message @ order_entry e i r"] show ?case
    by simp
qed

subsection \<open>\<^verbatim>\<open>/logout\<close>\<close>

text \<open>
  C5. For every chat id and every prior state, after the \<^verbatim>\<open>/logout\<close> callback neither
  \<^verbatim>\<open>userSessions\<close> nor \<^verbatim>\<open>loginStates\<close> has an entry for that id, and the
  confirmation is sent whether a session existed or not. Running the callback a second
  time (under any answers of the collaborators) leaves the same maps and issues the same
  reply; under the same answers the whole result is the same. A message whose text is
  \<^verbatim>\<open>/logout\<close> runs exactly this callback.
\<close>

theorem logout_clears_and_idempotent:
  "userSessions (bot_after (onText_logout e b c)) c = None
   \<and> loginStates (bot_after (onText_logout e b c)) c = None
   \<and> effects (onText_logout e b c) = [SendMessage c logged_out_text Plain]
   \<and> bot_after (onText_logout e' (bot_after (onText_logout e b c)) c)
       = bot_after (onText_logout e b c)
   \<and> effects (onText_logout e' (bot_after (onText_logout e b c)) c)
       = effects (onText_logout e b c)
   \<and> onText_logout e (bot_after (onText_logout e b c)) c = onText_logout e b c
   \<and> processUpdate e b \<lparr>chat = c, text_of = Some ''/logout''\<rparr> = onText_logout e b c"
  by (simp add: onText_logout_def Let_def processUpdate_def handlers_for_def sublist_code(3)
      then_run_resolved_Nil)

subsection \<open>\<^verbatim>\<open>/start\<close>\<close>

text \<open>
  C3, as first stated: for every prior state, \<^verbatim>\<open>/start\<close> removes any existing session
  of the conversation. It does not: the callback never touches \<^verbatim>\<open>userSessions\<close>.
  With chat 1 logged in as user 7, the session is still there after \<^verbatim>\<open>/start\<close>.
\<close>

theorem start_removes_session_counterexample:
  "userSessions logged_in_bot 1 = Some 7
   \<and> userSessions
        (bot_after (processUpdate ex_env logged_in_bot \<lparr>chat = 1, text_of = Some ''/start''\<rparr>)) 1
       = Some 7"
  by (simp add: processUpdate_def handlers_for_def sublist_code(3) then_run_resolved_Nil
      onText_start_def ex_env_def logged_in_bot_def)

text \<open>
  C3, amended: for every chat id and every prior state, the \<^verbatim>\<open>/start\<close> callback
  issues the welcome and instruction reply and leaves \<^verbatim>\<open>userSessions\<close> as it was;
  when that reply is sent, the login state of the chat is set to awaiting-username (every
  other chat's state is kept) and the callback resolves. A message whose text is
  \<^verbatim>\<open>/start\<close> runs exactly this callback.
\<close>

theorem start_keeps_session:
  "userSessions (bot_after (onText_start e b c)) = userSessions b
   \<and> effects (onText_start e b c) = [SendMessage c welcome_text Plain]
   \<and> (send_ok e c welcome_text \<longrightarrow>
        loginStates (bot_after (onText_start e b c)) = (loginStates b)(c \<mapsto> StepUsername)
        \<and> \<not> rejected (onText_start e b c))
   \<and> processUpdate e b \<lparr>chat = c, text_of = Some ''/start''\<rparr> = onText_start e b c"
  by (simp add: onText_start_def processUpdate_def handlers_for_def sublist_code(3)
      then_run_resolved_Nil)

theorem start_keeps_session_witness:
  "send_ok ex_env 1 welcome_text
   \<and> userSessions (bot_after (onText_start ex_env logged_in_bot 1)) 1 = Some 7
   \<and> loginStates (bot_after (onText_start ex_env logged_in_bot 1)) 1 = Some StepUsername
   \<and> \<not> rejected (onText_start ex_env logged_in_bot 1)"
  using start_keeps_session [of ex_env logged_in_bot 1]
  by (simp add: ex_env_def logged_in_bot_def)

subsection \<open>\<^verbatim>\<open>/orders\<close> without a session\<close>

text \<open>
  C7. For every chat with no entry in \<^verbatim>\<open>userSessions\<close>, the \<^verbatim>\<open>/orders\<close> callback
  issues the login-required message and nothing else, so no query; both maps are
  unchanged. A message whose text is \<^verbatim>\<open>/orders\<close> runs exactly this callback.
\<close>

theorem orders_without_session:
  assumes "userSessions b c = None"
  shows "effects (onText_orders e b c) = [SendMessage c login_first_text Plain]
         \<and> (\<forall>q. Query q \<notin> set (effects (onText_orders e b c)))
         \<and> bot_after (onText_orders e b c) = b
         \<and> processUpdate e b \<lparr>chat = c, text_of = Some ''/orders''\<rparr> = onText_orders e b c"
  using assms
  by (simp add: onText_orders_def processUpdate_def handlers_for_def sublist_code(3)
      then_run_resolved_Nil)

theorem orders_without_session_witness:
  "userSessions awaiting_password_bot 1 = None
   \<and> effects (onText_orders ex_env awaiting_password_bot 1)
       = [SendMessage 1 login_first_text Plain]
   \<and> bot_after (onText_orders ex_env awaiting_password_bot 1) = awaiting_password_bot"
  using orders_without_session [of awaiting_password_bot 1 ex_env]
  by (simp add: awaiting_password_bot_def)

subsection \<open>\<^verbatim>\<open>authenticateUser\<close>\<close>

text \<open>
  C1, as first stated: authentication succeeds if and only if the table holds a record
  with the submitted username, status \<^verbatim>\<open>approved\<close>, and a hash that verifies against
  the submitted password. Two inputs where such a record exists and the attempt fails
  (no session is stored, a failure text is sent): the query rejects, so the
  \<^verbatim>\<open>catch\<close> block answers; and the table holds two approved rows of the username, of
  which the source checks only \<^verbatim>\<open>rows[0]\<close>.
\<close>

theorem authenticate_iff_counterexample:
  "alice \<in> set (users ex_env_db_down)
   \<and> username alice = ''alice'' \<and> status alice = ''approved''
   \<and> bcrypt_compare ex_env_db_down ''correctpass'' (password alice)
   \<and> userSessions
        (bot_after (authenticateUser ex_env_db_down empty_bot 1 ''alice'' ''correctpass'')) 1
       = None
   \<and> effects (authenticateUser ex_env_db_down empty_bot 1 ''alice'' ''correctpass'')
       = [Query (SelectUser ''alice'' ''approved''), ConsoleError ''Authentication error:'',
          SendMessage 1 login_failed_text Plain]
   \<and> alice_second \<in> set (users ex_env_two_alices)
   \<and> username alice_second = ''alice'' \<and> status alice_second = ''approved''
   \<and> bcrypt_compare ex_env_two_alices ''otherpass'' (password alice_second)
   \<and> userSessions
        (bot_after (authenticateUser ex_env_two_alices empty_bot 1 ''alice'' ''otherpass'')) 1
       = None
   \<and> effects (authenticateUser ex_env_two_alices empty_bot 1 ''alice'' ''otherpass'')
       = [Query (SelectUser ''alice'' ''approved''), SendMessage 1 invalid_password_text Plain]"
  by (simp add: authenticateUser_def authenticate_catch_def users_query_def
      ex_env_db_down_def ex_env_two_alices_def ex_env_def alice_def alice_second_def
      ex_bcrypt_def empty_bot_def Let_def)

text \<open>
  C1, amended: when the users query returns, authentication succeeds if and only if the
  first row it returns (the first record of the table whose username equals the submitted
  one exactly and whose status is \<^verbatim>\<open>approved\<close>) has a hash that verifies against the
  submitted password; success stores that user's id for the chat and sends the welcome.
  Where approved usernames are unique, that is: if and only if a record with that
  username, status and a verifying hash exists. In every other case (datastore error, no
  row, first row's hash not verifying) \<^verbatim>\<open>userSessions\<close> is left as it was and no
  welcome is sent.
\<close>

theorem authenticate_first_row:
  "(pool_query_ok e
      \<and> (\<exists>u. find (\<lambda>u. username u = name \<and> status u = ''approved'') (users e) = Some u
             \<and> bcrypt_compare e pw (password u))
    \<longrightarrow> (\<exists>u. find (\<lambda>u. username u = name \<and> status u = ''approved'') (users e) = Some u
           \<and> userSessions (bot_after (authenticateUser e b c name pw))
               = (userSessions b)(c \<mapsto> uid u)
           \<and> SendMessage c (welcomeMsg u) Plain
               \<in> set (effects (authenticateUser e b c name pw))))
   \<and> (\<not> (pool_query_ok e
          \<and> (\<exists>u. find (\<lambda>u. username u = name \<and> status u = ''approved'') (users e) = Some u
                 \<and> bcrypt_compare e pw (password u)))
    \<longrightarrow> userSessions (bot_after (authenticateUser e b c name pw)) = userSessions b
        \<and> (\<forall>v. SendMessage c (welcomeMsg v) Plain
               \<notin> set (effects (authenticateUser e b c name pw))))
   \<and> (distinct (map username (filter (\<lambda>u. status u = ''approved'') (users e)))
    \<longrightarrow> ((\<exists>u. find (\<lambda>u. username u = name \<and> status u = ''approved'') (users e) = Some u
             \<and> bcrypt_compare e pw (password u))
         \<longleftrightarrow> (\<exists>u \<in> set (users e). username u = name \<and> status u = ''approved''
                 \<and> bcrypt_compare e pw (password u))))"
proof -
  let ?P = "\<lambda>u. username u = name \<and> status u = ''approved''"
  let ?r = "authenticateUser e b c name pw"
  let ?ok = "pool_query_ok e
      \<and> (\<exists>u. find ?P (users e) = Some u \<and> bcrypt_compare e pw (password u))"
  have q: "users_query (users e) name ''approved'' = filter ?P (users e)"
    by (simp add: users_query_def)
  have succ: "\<exists>u. find ?P (users e) = Some u
           \<and> userSessions (bot_after ?r) = (userSessions b)(c \<mapsto> uid u)
           \<and> SendMessage c (welcomeMsg u) Plain \<in> set (effects ?r)" if ?ok
  proof -
    from that obtain u where ok: "pool_query_ok e" and f: "find ?P (users e) = Some u"
      and v: "bcrypt_compare e pw (password u)" by blast
    from f obtain rest where "filter ?P (users e) = u # rest"
      by (auto simp: find_filter_conv split: list.splits)
    with q have "users_query (users e) name ''approved'' = u # rest" by simp
    from authenticate_success(1,2) [OF ok this v, where b = b and c = c] f
    show ?thesis by blast
  qed
  have fail: "userSessions (bot_after ?r) = userSessions b
        \<and> (\<forall>v. SendMessage c (welcomeMsg v) Plain \<notin> set (effects ?r))" if n: "\<not> ?ok"
  proof -
    have "\<not> pool_query_ok e \<or> users_query (users e) name ''approved'' = []
           \<or> (\<exists>u rest. users_query (users e) name ''approved'' = u # rest
                 \<and> \<not> bcrypt_compare e pw (password u))"
    proof (cases "filter ?P (users e)")
      case Nil
      then show ?thesis using q by simp
    next
      case (Cons u rest)
      then have "find ?P (users e) = Some u" by (simp add: find_filter_conv)
      with n have "\<not> pool_query_ok e \<or> \<not> bcrypt_compare e pw (password u)" by blast
      with Cons q show ?thesis by auto
    qed
    from authenticate_failure [OF this, where b = b and c = c]
    show ?thesis by blast
  qed
  have uniq: "(\<exists>u. find ?P (users e) = Some u \<and> bcrypt_compare e pw (password u))
         \<longleftrightarrow> (\<exists>u \<in> set (users e). username u = name \<and> status u = ''approved''
                 \<and> bcrypt_compare e pw (password u))"
    if d: "distinct (map username (filter (\<lambda>u. status u = ''approved'') (users e)))"
  proof
    assume "\<exists>u. find ?P (users e) = Some u \<and> bcrypt_compare e pw (password u)"
    then obtain u where f: "find ?P (users e) = Some u" and v: "bcrypt_compare e pw (password u)"
      by blast
    from f have "u \<in> set (users e) \<and> ?P u"
      by (auto simp: find_Some_iff)
    with v show "\<exists>u \<in> set (users e). username u = name \<and> status u = ''approved''
                 \<and> bcrypt_compare e pw (password u)" by blast
  next
    assume "\<exists>u \<in> set (users e). username u = name \<and> status u = ''approved''
                 \<and> bcrypt_compare e pw (password u)"
    then obtain u where u: "u \<in> set (users e)" "?P u" and v: "bcrypt_compare e pw (password u)"
      by blast
    from u obtain u' where f: "find ?P (users e) = Some u'"
      by (cases "find ?P (users e)") (auto simp: find_None_iff)
    then have u': "u' \<in> set (users e)" "?P u'"
      by (auto simp: find_Some_iff)
    from d have "inj_on username (set (filter (\<lambda>u. status u = ''approved'') (users e)))"
      by (simp add: distinct_map)
    with u u' have "u' = u"
      by (auto dest: inj_onD)
    with f v show "\<exists>u. find ?P (users e) = Some u \<and> bcrypt_compare e pw (password u)"
      by blast
  qed
  from succ fail uniq show ?thesis by blast
qed

theorem authenticate_first_row_witness:
  "pool_query_ok ex_env
   \<and> find (\<lambda>u. username u = ''alice'' \<and> status u = ''approved'') (users ex_env) = Some alice
   \<and> distinct (map username (filter (\<lambda>u. status u = ''approved'') (users ex_env)))
   \<and> bcrypt_compare ex_env ''correctpass'' (password alice)
   \<and> userSessions (bot_after (authenticateUser ex_env empty_bot 1 ''alice'' ''correctpass'')) 1
       = Some 7
   \<and> \<not> bcrypt_compare ex_env ''wrongpass'' (password alice)
   \<and> userSessions (bot_after (authenticateUser ex_env empty_bot 1 ''alice'' ''wrongpass'')) 1
       = None"
  using authenticate_first_row [where e = ex_env and b = empty_bot and c = 1
      and name = "''alice''" and pw = "''correctpass''"]
    authenticate_first_row [where e = ex_env and b = empty_bot and c = 1
      and name = "''alice''" and pw = "''wrongpass''"]
  by (simp add: ex_env_def alice_def ex_bcrypt_def empty_bot_def)

text \<open>
  C4, as first stated: the Authenticator never writes to the Session Store. It does: on
  success \<^verbatim>\<open>authenticateUser\<close> itself runs \<^verbatim>\<open>this.userSessions.set(chatId, user.id)\<close>.
\<close>

theorem authenticate_writes_session_counterexample:
  "userSessions empty_bot 1 = None
   \<and> userSessions (bot_after (authenticateUser ex_env empty_bot 1 ''alice'' ''correctpass'')) 1
       = Some 7"
  by (simp add: authenticateUser_def users_query_def ex_env_def alice_def ex_bcrypt_def
      empty_bot_def Let_def)

text \<open>
  What \<^verbatim>\<open>authenticateUser\<close> leaves in \<^verbatim>\<open>loginStates\<close>: every run that resolves has
  removed the entry of the chat, and a run resolves whenever the failure text of the
  \<^verbatim>\<open>catch\<close> block can be sent.
\<close>

lemma authenticate_resolved_loginStates:
  "\<not> rejected (authenticateUser e b c name pw) \<Longrightarrow>
     loginStates (bot_after (authenticateUser e b c name pw)) = (loginStates b)(c := None)"
  by (auto simp add: authenticateUser_def Let_def authenticate_catch_loginStates
      authenticate_catch_rejected split: if_splits list.splits)

lemma authenticate_resolves:
  "send_ok e c login_failed_text \<Longrightarrow> \<not> rejected (authenticateUser e b c name pw)"
  by (auto simp add: authenticateUser_def Let_def authenticate_catch_rejected
      split: if_splits list.splits)

lemma authenticate_loginStates_cases:
  "loginStates (bot_after (authenticateUser e b c name pw)) = loginStates b
   \<or> loginStates (bot_after (authenticateUser e b c name pw)) = (loginStates b)(c := None)"
  by (auto simp add: authenticateUser_def Let_def authenticate_catch_loginStates
      split: if_splits list.splits)

lemma authenticate_other_chats:
  "c' \<noteq> c \<Longrightarrow>
     userSessions (bot_after (authenticateUser e b c name pw)) c' = userSessions b c'
     \<and> loginStates (bot_after (authenticateUser e b c name pw)) c' = loginStates b c'"
  by (auto simp add: authenticateUser_def Let_def authenticate_catch_loginStates
      authenticate_catch_sessions split: if_splits list.splits)

lemma authenticate_success_loginStates:
  assumes "pool_query_ok e"
    and "users_query (users e) name ''approved'' = u # rest"
    and "bcrypt_compare e pw (password u)"
  shows "loginStates (bot_after (authenticateUser e b c name pw)) = (loginStates b)(c := None)"
  using assms
  by (simp add: authenticateUser_def Let_def authenticate_catch_loginStates)

text \<open>
  C4, amended: \<^verbatim>\<open>authenticateUser\<close> writes the two maps itself, and only at its own
  chat id: every other chat's entries are left as they were. On a successful attempt (the
  query returns and the first row's hash verifies) it stores that user's id in
  \<^verbatim>\<open>userSessions\<close> for the chat and removes the chat's entry of \<^verbatim>\<open>loginStates\<close>,
  whatever its sends do, also when the welcome cannot be sent and the failure text is sent
  in its place. On a failed attempt (datastore error, no row, first row's hash not
  verifying) it leaves \<^verbatim>\<open>userSessions\<close> unchanged, and when its promise resolves it has
  removed the chat's entry of \<^verbatim>\<open>loginStates\<close>; the only change it ever makes to
  \<^verbatim>\<open>loginStates\<close> is that removal. The promise resolves whenever the failure text can
  be sent.
\<close>

theorem authenticate_frame:
  "(\<forall>c'. c' \<noteq> c \<longrightarrow>
       userSessions (bot_after (authenticateUser e b c name pw)) c' = userSessions b c'
       \<and> loginStates (bot_after (authenticateUser e b c name pw)) c' = loginStates b c')
   \<and> (\<forall>u. pool_query_ok e
         \<and> find (\<lambda>u. username u = name \<and> status u = ''approved'') (users e) = Some u
         \<and> bcrypt_compare e pw (password u)
       \<longrightarrow> userSessions (bot_after (authenticateUser e b c name pw))
             = (userSessions b)(c \<mapsto> uid u)
           \<and> loginStates (bot_after (authenticateUser e b c name pw))
             = (loginStates b)(c := None))
   \<and> (\<not> (pool_query_ok e
          \<and> (\<exists>u. find (\<lambda>u. username u = name \<and> status u = ''approved'') (users e) = Some u
                 \<and> bcrypt_compare e pw (password u)))
       \<longrightarrow> userSessions (bot_after (authenticateUser e b c name pw)) = userSessions b
           \<and> (\<not> rejected (authenticateUser e b c name pw) \<longrightarrow>
                 loginStates (bot_after (authenticateUser e b c name pw))
                   = (loginStates b)(c := None))
           \<and> (loginStates (bot_after (authenticateUser e b c name pw)) = loginStates b
               \<or> loginStates (bot_after (authenticateUser e b c name pw))
                   = (loginStates b)(c := None)))
   \<and> (send_ok e c login_failed_text \<longrightarrow> \<not> rejected (authenticateUser e b c name pw))"
proof -
  let ?P = "\<lambda>u. username u = name \<and> status u = ''approved''"
  let ?r = "authenticateUser e b c name pw"
  have q: "users_query (users e) name ''approved'' = filter ?P (users e)"
    by (simp add: users_query_def)
  have others: "userSessions (bot_after ?r) c' = userSessions b c'
       \<and> loginStates (bot_after ?r) c' = loginStates b c'" if "c' \<noteq> c" for c'
    using that by (rule authenticate_other_chats)
  have succ: "userSessions (bot_after ?r) = (userSessions b)(c \<mapsto> uid u)
           \<and> loginStates (bot_after ?r) = (loginStates b)(c := None)"
    if ok: "pool_query_ok e" and f: "find ?P (users e) = Some u"
      and v: "bcrypt_compare e pw (password u)" for u
  proof -
    from f obtain rest where "filter ?P (users e) = u # rest"
      by (auto simp: find_filter_conv split: list.splits)
    with q have rows: "users_query (users e) name ''approved'' = u # rest" by simp
    from authenticate_success(1) [OF ok rows v, where b = b and c = c]
      authenticate_success_loginStates [OF ok rows v, where b = b and c = c]
    show ?thesis by simp
  qed
  have fail: "userSessions (bot_after ?r) = userSessions b"
    if n: "\<not> (pool_query_ok e
          \<and> (\<exists>u. find ?P (users e) = Some u \<and> bcrypt_compare e pw (password u)))"
  proof -
    have "\<not> pool_query_ok e \<or> users_query (users e) name ''approved'' = []
           \<or> (\<exists>u rest. users_query (users e) name ''approved'' = u # rest
                 \<and> \<not> bcrypt_compare e pw (password u))"
    proof (cases "filter ?P (users e)")
      case Nil
      then show ?thesis using q by simp
    next
      case (Cons u rest)
      then have "find ?P (users e) = Some u" by (simp add: find_filter_conv)
      with n have "\<not> pool_query_ok e \<or> \<not> bcrypt_compare e pw (password u)" by blast
      with Cons q show ?thesis by auto
    qed
    then show ?thesis by (rule authenticate_failure(1))
  qed
  have res: "loginStates (bot_after ?r) = (loginStates b)(c := None)" if "\<not> rejected ?r"
    using that by (rule authenticate_resolved_loginStates)
  have cases: "loginStates (bot_after ?r) = loginStates b
               \<or> loginStates (bot_after ?r) = (loginStates b)(c := None)"
    by (rule authenticate_loginStates_cases)
  have resolves: "\<not> rejected ?r" if "send_ok e c login_failed_text"
    using that by (rule authenticate_resolves)
  from others succ fail res cases resolves show ?thesis
    by blast
qed

theorem authenticate_frame_witness:
  "(2::int) \<noteq> 1
   \<and> userSessions (bot_after (authenticateUser ex_env two_chats_bot 1 ''alice'' ''correctpass'')) 2
       = Some 9
   \<and> loginStates (bot_after (authenticateUser ex_env two_chats_bot 1 ''alice'' ''correctpass'')) 2
       = Some StepUsername
   \<and> pool_query_ok ex_env
   \<and> find (\<lambda>u. username u = ''alice'' \<and> status u = ''approved'') (users ex_env) = Some alice
   \<and> bcrypt_compare ex_env ''correctpass'' (password alice)
   \<and> userSessions (bot_after (authenticateUser ex_env two_chats_bot 1 ''alice'' ''correctpass''))
       = (userSessions two_chats_bot)(1 \<mapsto> uid alice)
   \<and> loginStates (bot_after (authenticateUser ex_env two_chats_bot 1 ''alice'' ''correctpass''))
       = (loginStates two_chats_bot)(1 := None)
   \<and> \<not> send_ok ex_env_welcome_fails 1 (welcomeMsg alice)
   \<and> send_ok ex_env_welcome_fails 1 login_failed_text
   \<and> userSessions
        (bot_after (authenticateUser ex_env_welcome_fails two_chats_bot 1 ''alice'' ''correctpass''))
       = (userSessions two_chats_bot)(1 \<mapsto> uid alice)
   \<and> \<not> rejected (authenticateUser ex_env_welcome_fails two_chats_bot 1 ''alice'' ''correctpass'')
   \<and> \<not> bcrypt_compare ex_env ''wrongpass'' (password alice)
   \<and> userSessions (bot_after (authenticateUser ex_env two_chats_bot 1 ''alice'' ''wrongpass''))
       = userSessions two_chats_bot
   \<and> \<not> rejected (authenticateUser ex_env two_chats_bot 1 ''alice'' ''wrongpass'')
   \<and> loginStates (bot_after (authenticateUser ex_env two_chats_bot 1 ''alice'' ''wrongpass''))
       = (loginStates two_chats_bot)(1 := None)"
  using authenticate_frame [where e = ex_env and b = two_chats_bot and c = 1
      and name = "''alice''" and pw = "''correctpass''"]
    authenticate_frame [where e = ex_env_welcome_fails and b = two_chats_bot and c = 1
      and name = "''alice''" and pw = "''correctpass''"]
    authenticate_frame [where e = ex_env and b = two_chats_bot and c = 1
      and name = "''alice''" and pw = "''wrongpass''"]
  by (simp add: authenticateUser_def authenticate_catch_def users_query_def Let_def
      ex_env_welcome_fails_def ex_env_def alice_def ex_bcrypt_def two_chats_bot_def
      welcomeMsg_not_failure)

text \<open>
  C6. The claim: once an authentication attempt has ended, whatever its outcome,
  \<^verbatim>\<open>loginStates\<close> has no entry for the chat. The code does not keep it. On the three
  failing outcomes the delete comes after an awaited send (\<^verbatim>\<open>sendMessage\<close> and then
  \<^verbatim>\<open>this.loginStates.delete(chatId)\<close>, in both early returns and in the \<^verbatim>\<open>catch\<close>
  block), so when the chat rejects the sends the attempt ends with the promise rejected
  and the entry still in place: on a datastore error, on a username that no approved row
  has, and on a wrong password. The success path deletes before it sends, and removes the
  entry on the same chat.
\<close>

theorem authenticate_leaves_login_state:
  "loginStates awaiting_password_bot 1 = Some (StepPassword ''alice'')
   \<and> rejected (authenticateUser ex_env_offline awaiting_password_bot 1 ''alice'' ''correctpass'')
   \<and> loginStates
        (bot_after (authenticateUser ex_env_offline awaiting_password_bot 1 ''alice'' ''correctpass''))
        1 = Some (StepPassword ''alice'')
   \<and> rejected (authenticateUser ex_env_blocked awaiting_password_bot 1 ''alice'' ''wrongpass'')
   \<and> loginStates
        (bot_after (authenticateUser ex_env_blocked awaiting_password_bot 1 ''alice'' ''wrongpass''))
        1 = Some (StepPassword ''alice'')
   \<and> effects (authenticateUser ex_env_blocked awaiting_password_bot 1 ''alice'' ''wrongpass'')
       = [Query (SelectUser ''alice'' ''approved''), SendMessage 1 invalid_password_text Plain,
          ConsoleError ''Authentication error:'', SendMessage 1 login_failed_text Plain]
   \<and> loginStates awaiting_password_bob_bot 1 = Some (StepPassword ''bob'')
   \<and> rejected (authenticateUser ex_env_blocked awaiting_password_bob_bot 1 ''bob'' ''pass'')
   \<and> loginStates
        (bot_after (authenticateUser ex_env_blocked awaiting_password_bob_bot 1 ''bob'' ''pass''))
        1 = Some (StepPassword ''bob'')
   \<and> processUpdate ex_env_blocked awaiting_password_bot \<lparr>chat = 1, text_of = Some ''wrongpass''\<rparr>
       = authenticateUser ex_env_blocked awaiting_password_bot 1 ''alice'' ''wrongpass''
   \<and> rejected (authenticateUser ex_env_blocked awaiting_password_bot 1 ''alice'' ''correctpass'')
   \<and> loginStates
        (bot_after (authenticateUser ex_env_blocked awaiting_password_bot 1 ''alice'' ''correctpass''))
        1 = None"
  by (simp add: authenticateUser_def authenticate_catch_def users_query_def
      ex_env_offline_def ex_env_blocked_def ex_env_def alice_def ex_bcrypt_def
      awaiting_password_bot_def awaiting_password_bob_bot_def Let_def
      processUpdate_def handlers_for_def sublist_code(3) then_run_resolved_Nil
      handleLoginFlow_def)

subsection \<open>\<^verbatim>\<open>handleLoginFlow\<close>\<close>

text \<open>
  C8. A text that is not empty and does not start with \<^verbatim>\<open>/\<close> is handed to
  \<^verbatim>\<open>handleLoginFlow\<close>. With no login state for the chat, the handler issues the
  prompt to start with \<^verbatim>\<open>/start\<close> and changes neither map. With a login state, the
  text is the input of the current step: at the username step it is stored as the pending
  username and the password prompt is issued; at the password step it is the password
  passed to \<^verbatim>\<open>authenticateUser\<close> with the pending username. When the text contains
  none of the three command words, \<^verbatim>\<open>handleLoginFlow\<close> is all that the message runs.
\<close>

theorem login_flow_steps:
  "(loginStates b c = None \<longrightarrow>
      bot_after (handleLoginFlow e b c t) = b
      \<and> effects (handleLoginFlow e b c t) = [SendMessage c please_start_text Plain])
   \<and> (loginStates b c = Some StepUsername \<longrightarrow>
      bot_after (handleLoginFlow e b c t)
        = b\<lparr>loginStates := (loginStates b)(c \<mapsto> StepPassword t)\<rparr>
      \<and> effects (handleLoginFlow e b c t) = [SendMessage c send_password_text Plain])
   \<and> (loginStates b c = Some (StepPassword name) \<longrightarrow>
      handleLoginFlow e b c t = authenticateUser e b c name t)
   \<and> (t \<noteq> [] \<and> \<not> prefix ''/'' t \<longrightarrow>
      LoginFlow \<in> set (handlers_for \<lparr>chat = c, text_of = Some t\<rparr>)
      \<and> run_handler e \<lparr>chat = c, text_of = Some t\<rparr> b LoginFlow = handleLoginFlow e b c t)
   \<and> (t \<noteq> [] \<and> \<not> prefix ''/'' t
       \<and> \<not> sublist ''/start'' t \<and> \<not> sublist ''/orders'' t \<and> \<not> sublist ''/logout'' t \<longrightarrow>
      processUpdate e b \<lparr>chat = c, text_of = Some t\<rparr> = handleLoginFlow e b c t)"
proof -
  let ?m = "\<lparr>chat = c, text_of = Some t\<rparr>"
  have no_state: "bot_after (handleLoginFlow e b c t) = b
      \<and> effects (handleLoginFlow e b c t) = [SendMessage c please_start_text Plain]"
    if "loginStates b c = None"
    using that by (simp add: handleLoginFlow_def)
  have username_step: "bot_after (handleLoginFlow e b c t)
        = b\<lparr>loginStates := (loginStates b)(c \<mapsto> StepPassword t)\<rparr>
      \<and> effects (handleLoginFlow e b c t) = [SendMessage c send_password_text Plain]"
    if "loginStates b c = Some StepUsername"
    using that by (simp add: handleLoginFlow_def Let_def)
  have password_step: "handleLoginFlow e b c t = authenticateUser e b c name t"
    if "loginStates b c = Some (StepPassword name)"
    using that by (simp add: handleLoginFlow_def)
  have listener: "LoginFlow \<in> set (handlers_for ?m)
      \<and> run_handler e ?m b LoginFlow = handleLoginFlow e b c t"
    if "t \<noteq> []" and "\<not> prefix ''/'' t"
    using that by (simp add: handlers_for_def)
  have alone: "processUpdate e b ?m = handleLoginFlow e b c t"
    if "t \<noteq> []" and "\<not> prefix ''/'' t"
      and "\<not> sublist ''/start'' t" and "\<not> sublist ''/orders'' t" and "\<not> sublist ''/logout'' t"
  proof -
    from that have "handlers_for ?m = [LoginFlow]"
      by (simp add: handlers_for_def)
    then show ?thesis
      by (simp add: processUpdate_def then_run_resolved_Nil)
  qed
  from no_state username_step password_step listener alone show ?thesis
    by blast
qed

theorem login_flow_steps_witness:
  "loginStates empty_bot 1 = None
   \<and> ''hello'' \<noteq> [] \<and> \<not> prefix ''/'' ''hello''
   \<and> bot_after (handleLoginFlow ex_env empty_bot 1 ''hello'') = empty_bot
   \<and> effects (handleLoginFlow ex_env empty_bot 1 ''hello'')
       = [SendMessage 1 please_start_text Plain]
   \<and> processUpdate ex_env empty_bot \<lparr>chat = 1, text_of = Some ''hello''\<rparr>
       = handleLoginFlow ex_env empty_bot 1 ''hello''
   \<and> loginStates two_chats_bot 2 = Some StepUsername
   \<and> loginStates (bot_after (handleLoginFlow ex_env two_chats_bot 2 ''alice'')) 2
       = Some (StepPassword ''alice'')
   \<and> loginStates awaiting_password_bot 1 = Some (StepPassword ''alice'')
   \<and> userSessions (bot_after (handleLoginFlow ex_env awaiting_password_bot 1 ''correctpass'')) 1
       = Some 7"
  using login_flow_steps [where e = ex_env and b = empty_bot and c = 1 and t = "''hello''"]
    login_flow_steps [where e = ex_env and b = two_chats_bot and c = 2 and t = "''alice''"]
    login_flow_steps [where e = ex_env and b = awaiting_password_bot and c = 1
      and t = "''correctpass''" and name = "''alice''"]
  by (simp add: empty_bot_def two_chats_bot_def awaiting_password_bot_def processUpdate_def
      handlers_for_def sublist_code(3) then_run_resolved_Nil authenticateUser_def
      users_query_def ex_env_def alice_def ex_bcrypt_def Let_def)

subsection \<open>\<^verbatim>\<open>showUserOrders\<close>\<close>

text \<open>
  C2. For every user id, the rows of the orders query are rows of orders whose
  \<^verbatim>\<open>sales_officer_id\<close> is that id, there are at most 10 of them (as many as the user
  owns, when fewer), and they are in descending order of \<^verbatim>\<open>created_at\<close>: no row is
  older than a later row, and when the user's orders have pairwise different times each
  row is newer than the next. They are the most recent ones: an order of the user that is
  left out is no more recent than any row returned. When there is a row, the reply that
  \<^verbatim>\<open>showUserOrders\<close> issues is the header followed by one entry per row, in that
  order, numbered from 1.
\<close>

theorem orders_query_owned_capped_sorted:
  "(\<forall>r \<in> set (orders_query (orders e) userId).
       \<exists>x \<in> set (orders e). sales_officer_id x = userId \<and> r = order_row.truncate x)
   \<and> length (orders_query (orders e) userId) \<le> 10
   \<and> length (orders_query (orders e) userId)
       = min 10 (length (filter (\<lambda>x. sales_officer_id x = userId) (orders e)))
   \<and> sorted_wrt (\<lambda>r r'. created_at r \<ge> created_at r') (orders_query (orders e) userId)
   \<and> (distinct (map created_at (filter (\<lambda>x. sales_officer_id x = userId) (orders e))) \<longrightarrow>
         sorted_wrt (\<lambda>r r'. created_at r > created_at r') (orders_query (orders e) userId))
   \<and> (\<forall>x \<in> set (orders e). sales_officer_id x = userId \<longrightarrow>
         order_row.truncate x \<in> set (orders_query (orders e) userId)
         \<or> (\<forall>r \<in> set (orders_query (orders e) userId). created_at x \<le> created_at r))
   \<and> (pool_query_ok e \<and> orders_query (orders e) userId \<noteq> [] \<longrightarrow>
         take 2 (effects (showUserOrders e b c userId))
           = [Query (SelectOrders userId),
              SendMessage c
                (orders_header @ concat (map (\<lambda>(k, r). order_entry e k r)
                   (zip [0..<length (orders_query (orders e) userId)]
                        (orders_query (orders e) userId))))
                Markdown])"
proof -
  let ?tbl = "orders e"
  let ?own = "filter (\<lambda>x. sales_officer_id x = userId) ?tbl"
  let ?srt = "sort_key (\<lambda>x. - created_at x) ?own"
  let ?rows = "orders_query ?tbl userId"
  have q: "?rows = map order_row.truncate (take 10 ?srt)"
    by (simp add: orders_query_def)
  have owned: "\<exists>x \<in> set ?tbl. sales_officer_id x = userId \<and> r = order_row.truncate x"
    if "r \<in> set ?rows" for r
  proof -
    from that q obtain x where x: "x \<in> set (take 10 ?srt)" and r: "r = order_row.truncate x"
      by auto
    from x have "x \<in> set ?srt" by (rule in_set_takeD)
    then have "x \<in> set ?own" by simp
    with r show ?thesis by auto
  qed
  have len: "length ?rows = min 10 (length ?own)"
    by (simp add: q min.commute)
  have "sorted (map (\<lambda>x. - created_at x) ?srt)"
    by (rule sorted_sort_key)
  then have s: "sorted_wrt (\<lambda>x y. created_at y \<le> created_at x) ?srt"
    by (simp add: sorted_wrt_map)
  then have "sorted_wrt (\<lambda>x y. created_at y \<le> created_at x) (take 10 ?srt)"
    by (rule sorted_wrt_take)
  then have srt: "sorted_wrt (\<lambda>r r'. created_at r \<ge> created_at r') ?rows"
    by (simp add: q sorted_wrt_map created_at_truncate)
  have top: "order_row.truncate x \<in> set ?rows
         \<or> (\<forall>r \<in> set ?rows. created_at x \<le> created_at r)"
    if "x \<in> set ?tbl" and "sales_officer_id x = userId" for x
  proof -
    have split: "set ?srt = set (take 10 ?srt) \<union> set (drop 10 ?srt)"
      by (metis append_take_drop_id set_append)
    from that have "x \<in> set ?srt" by simp
    with split consider "x \<in> set (take 10 ?srt)" | "x \<in> set (drop 10 ?srt)" by blast
    then show ?thesis
    proof cases
      case 1
      then show ?thesis by (simp add: q)
    next
      case 2
      from s have "sorted_wrt (\<lambda>x y. created_at y \<le> created_at x) (take 10 ?srt @ drop 10 ?srt)"
        by simp
      then have "\<forall>y \<in> set (take 10 ?srt). \<forall>z \<in> set (drop 10 ?srt). created_at z \<le> created_at y"
        unfolding sorted_wrt_append by blast
      with 2 have "\<forall>y \<in> set (take 10 ?srt). created_at x \<le> created_at y"
        by blast
      then show ?thesis by (auto simp: q created_at_truncate)
    qed
  qed
  have msg: "take 2 (effects (showUserOrders e b c userId))
           = [Query (SelectOrders userId),
              SendMessage c
                (orders_header @ concat (map (\<lambda>(k, r). order_entry e k r)
                   (zip [0..<length ?rows] ?rows)))
                Markdown]"
    if "pool_query_ok e" and "?rows \<noteq> []"
    using that
    by (simp add: showUserOrders_def showUserOrders_catch_def Let_def forEach_order_concat)
  have strict: "sorted_wrt (\<lambda>r r'. created_at r > created_at r') ?rows"
    if "distinct (map created_at ?own)"
    using that by (rule orders_query_strict)
  from owned len srt strict top msg show ?thesis by auto
qed

theorem orders_query_owned_capped_sorted_witness:
  "map order_id (orders_query (orders ex_env) 7) = [3, 1]
   \<and> map created_at (orders_query (orders ex_env) 7) = [200, 100]
   \<and> ex_order 3 200 7 \<in> set (orders ex_env) \<and> sales_officer_id (ex_order 3 200 7) = 7
   \<and> order_row.truncate (ex_order 3 200 7) \<in> set (orders_query (orders ex_env) 7)
   \<and> pool_query_ok ex_env
   \<and> length (orders_query (orders ex_env) 7) \<le> 10
   \<and> distinct (map created_at (filter (\<lambda>x. sales_officer_id x = 7) (orders ex_env)))
   \<and> sorted_wrt (\<lambda>r r'. created_at r > created_at r') (orders_query (orders ex_env) 7)"
  using orders_query_owned_capped_sorted [where e = ex_env and userId = 7
      and b = empty_bot and c = 1]
  by (simp add: orders_query_def ex_env_def ex_order_def order_row.truncate_def)

text \<open>
  C9. When the orders query returns and has no row, the reply that \<^verbatim>\<open>showUserOrders\<close>
  issues right after the query is the literal no-orders text, sent plain; no Markdown
  message (the list rendering) is issued, and the text is not what the list loop makes of
  an empty list. When that reply is sent, it is the only one.
\<close>

theorem no_orders_reply:
  assumes "pool_query_ok e" and "orders_query (orders e) userId = []"
  shows "take 2 (effects (showUserOrders e b c userId))
           = [Query (SelectOrders userId), SendMessage c no_orders_text Plain]
         \<and> (\<forall>t. SendMessage c t Markdown \<notin> set (effects (showUserOrders e b c userId)))
         \<and> (send_ok e c no_orders_text \<longrightarrow>
              showUserOrders e b c userId
                = resolved b [Query (SelectOrders userId), SendMessage c no_orders_text Plain])
         \<and> no_orders_text \<noteq> forEach_order e [] 0 orders_header"
  using assms
  by (simp add: showUserOrders_def showUserOrders_catch_def Let_def no_orders_text_def
      orders_header_def)

theorem no_orders_reply_witness:
  "pool_query_ok ex_env \<and> orders_query (orders ex_env) 5 = []
   \<and> send_ok ex_env 1 no_orders_text
   \<and> effects (showUserOrders ex_env logged_in_bot 1 5)
       = [Query (SelectOrders 5), SendMessage 1 no_orders_text Plain]"
  using no_orders_reply [where e = ex_env and userId = 5 and b = logged_in_bot and c = 1]
  by (simp add: orders_query_def ex_env_def ex_order_def)

subsection \<open>Dispatch of texts that start with \<^verbatim>\<open>/\<close>\<close>

text \<open>
  C10. For every message whose text starts with \<^verbatim>\<open>/\<close>, \<^verbatim>\<open>handleLoginFlow\<close> is not
  among the handlers run. The text is never taken as a username or a password: after the
  message the login state of the chat is what it was, or awaiting-username, or absent
  (never a new pending username), and the session of the chat is what it was or absent
  (never a new login). When the text contains neither \<^verbatim>\<open>/start\<close> nor \<^verbatim>\<open>/logout\<close>
  (an unknown command such as \<^verbatim>\<open>/help\<close>, or \<^verbatim>\<open>/orders\<close>), both maps are unchanged.
\<close>

theorem slash_text_skips_login_flow:
  assumes "text_of m = Some t" and "prefix ''/'' t"
  shows "LoginFlow \<notin> set (handlers_for m)
         \<and> loginStates (bot_after (processUpdate e b m)) (chat m)
             \<in> {loginStates b (chat m), Some StepUsername, None}
         \<and> userSessions (bot_after (processUpdate e b m)) (chat m)
             \<in> {userSessions b (chat m), None}
         \<and> (\<not> sublist ''/start'' t \<and> \<not> sublist ''/logout'' t \<longrightarrow>
              loginStates (bot_after (processUpdate e b m)) = loginStates b
              \<and> bot_after (processUpdate e b m) = b)"
proof -
  from assms have ne: "t \<noteq> []" by auto
  from assms ne have h: "handlers_for m =
       (if sublist ''/start'' t then [Start] else [])
       @ (if sublist ''/orders'' t then [Orders] else [])
       @ (if sublist ''/logout'' t then [Logout] else [])"
    by (simp add: handlers_for_def)
  then have 1: "LoginFlow \<notin> set (handlers_for m)"
    by simp
  have 2: "loginStates (bot_after (processUpdate e b m)) (chat m)
             \<in> {loginStates b (chat m), Some StepUsername, None}"
    by (simp add: processUpdate_def h bot_after_then_run onText_orders_bot
        onText_start_bot onText_logout_bot)
  have 3: "userSessions (bot_after (processUpdate e b m)) (chat m)
             \<in> {userSessions b (chat m), None}"
    by (simp add: processUpdate_def h bot_after_then_run onText_orders_bot
        onText_start_bot onText_logout_bot)
  have 4: "bot_after (processUpdate e b m) = b"
    if "\<not> sublist ''/start'' t" and "\<not> sublist ''/logout'' t"
    using that by (simp add: processUpdate_def h bot_after_then_run onText_orders_bot)
  from 1 2 3 4 show ?thesis by simp
qed

theorem slash_text_skips_login_flow_witness:
  "text_of \<lparr>chat = 1, text_of = Some ''/help''\<rparr> = Some ''/help''
   \<and> prefix ''/'' ''/help''
   \<and> \<not> sublist ''/start'' ''/help'' \<and> \<not> sublist ''/logout'' ''/help''
   \<and> handlers_for \<lparr>chat = 1, text_of = Some ''/help''\<rparr> = []
   \<and> loginStates (bot_after (processUpdate ex_env awaiting_password_bot
        \<lparr>chat = 1, text_of = Some ''/help''\<rparr>)) 1 = Some (StepPassword ''alice'')"
  using slash_text_skips_login_flow [of "\<lparr>chat = 1, text_of = Some ''/help''\<rparr>" "''/help''"
      ex_env awaiting_password_bot]
  by (simp add: sublist_code(3) awaiting_password_bot_def handlers_for_def)

end
